theory Spec2Isabelle
  imports Complex_Main "HOL-Library.Sublist"
begin

section \<open>Strings\<close>

text \<open>
  A JavaScript string is a sequence of UTF-16 code units. The model covers the code units
  U+0000 .. U+00FF, which the 8-bit type \<^typ>\<open>char\<close> represents one for one, so that
  \<^typ>\<open>string\<close> is a JavaScript string over that range and \<^term>\<open>length\<close> is its
  \<^verbatim>\<open>.length\<close>.
\<close>

definition isWhiteSpace :: "char \<Rightarrow> bool" where
  \<comment> \<open>What \<^verbatim>\<open>String.prototype.trim\<close> removes and \<^verbatim>\<open>\s\<close> matches: TAB, LF, VT, FF, CR,
      SPACE and NO-BREAK SPACE are the white space and line terminators below U+0100.\<close>
  "isWhiteSpace c = (let n = (of_char c :: nat) in (9 \<le> n \<and> n \<le> 13) \<or> n = 32 \<or> n = 160)"

definition toLowerCaseUnit :: "char \<Rightarrow> char" where
  \<comment> \<open>\<^verbatim>\<open>A\<close>..\<^verbatim>\<open>Z\<close> and the Latin-1 capitals U+00C0..U+00DE (U+00D7, the multiplication sign,
      apart) move up by 32; every other code unit below U+0100 is its own lower case.\<close>
  "toLowerCaseUnit c = (let n = (of_char c :: nat) in
     if (65 \<le> n \<and> n \<le> 90) \<or> (192 \<le> n \<and> n \<le> 222 \<and> n \<noteq> 215)
     then char_of (n + 32) else c)"

definition toLowerCase :: "string \<Rightarrow> string" where
  "toLowerCase str = map toLowerCaseUnit str"

definition isKept :: "char \<Rightarrow> bool" where
  \<comment> \<open>The complement of the class \<^verbatim>\<open>[^a-z0-9 ]\<close>: what \<^verbatim>\<open>replace(/[^a-z0-9 ]/g, '')\<close> leaves.\<close>
  "isKept c = (let n = (of_char c :: nat) in
     (97 \<le> n \<and> n \<le> 122) \<or> (48 \<le> n \<and> n \<le> 57) \<or> n = 32)"

definition trim :: "string \<Rightarrow> string" where
  "trim str = rev (dropWhile isWhiteSpace (rev (dropWhile isWhiteSpace str)))"

definition normalize_str :: "string \<Rightarrow> string" where
  \<comment> \<open>\<^verbatim>\<open>str.toLowerCase().replace(/[^a-z0-9 ]/g, '').trim()\<close>\<close>
  "normalize_str str = trim (filter isKept (toLowerCase str))"

section \<open>The phrase matcher\<close>

fun includes_str :: "string \<Rightarrow> string \<Rightarrow> bool" where
  \<comment> \<open>\<^verbatim>\<open>str.includes(searchString)\<close>: the search string occurs in \<^verbatim>\<open>str\<close> at some position;
      the empty search string occurs in every string.\<close>
  "includes_str [] searchString = (searchString = [])"
| "includes_str (c # cs) searchString = (prefix searchString (c # cs) \<or> includes_str cs searchString)"

fun split_from :: "string \<Rightarrow> bool \<Rightarrow> string \<Rightarrow> string list" where
  \<comment> \<open>The scan of \<^verbatim>\<open>split(/\s+/)\<close>: the piece read so far, whether the scan stands inside a
      separator, and the rest of the string. A separator is a maximal run of white space; the
      piece before it and the piece after the last one are in the list, also when empty.\<close>
  "split_from cur inSep [] = [cur]"
| "split_from cur inSep (c # cs) =
     (if isWhiteSpace c then (if inSep then split_from [] True cs else cur # split_from [] True cs)
      else split_from (cur @ [c]) False cs)"

definition split_ws :: "string \<Rightarrow> string list" where
  \<comment> \<open>\<^verbatim>\<open>str.split(/\s+/)\<close>\<close>
  "split_ws str = split_from [] False str"

definition words_of :: "string \<Rightarrow> string list" where
  \<comment> \<open>\<^verbatim>\<open>str.split(/\s+/).filter(w => w.length > 0)\<close>\<close>
  "words_of str = filter (\<lambda>w. length w > 0) (split_ws str)"

definition wordMatches :: "string list \<Rightarrow> string \<Rightarrow> bool" where
  \<comment> \<open>\<^verbatim>\<open>inputWords.some(iWord => iWord.includes(tWord) || tWord.includes(iWord))\<close>\<close>
  "wordMatches inputWords tWord =
     list_ex (\<lambda>iWord. includes_str iWord tWord \<or> includes_str tWord iWord) inputWords"

text \<open>
  The two thresholds compare a length, or a quotient of two lengths, with the double
  \<^verbatim>\<open>0.6\<close>. On lengths a string can have, the rounding of the product and of the quotient
  never crosses an integer or the fraction 3/5 (a quotient of lengths other than 3/5 is
  at least 1/(5 t) away from it), so that both comparisons are the exact ones, written
  here over the reals.
\<close>

datatype match_path =
  NoTargetOrEmpty | InputContainsTarget | TargetContainsInput | WordBased | NoMatchFound

definition checkMatchPath :: "string \<Rightarrow> string \<Rightarrow> match_path" where
  \<comment> \<open>The \<^verbatim>\<open>return\<close> that \<^verbatim>\<open>checkMatch(statement)\<close> leaves through, with
      \<^verbatim>\<open>normalizedTargetRef.current\<close> as the first argument.\<close>
  "checkMatchPath normalizedTarget statement =
     (if normalizedTarget = [] \<or> trim statement = [] then NoTargetOrEmpty
      else
        let normalizedInput = normalize_str statement;
            target = normalizedTarget
        in
          if includes_str normalizedInput target then InputContainsTarget
          else if includes_str target normalizedInput
                  \<and> real (length normalizedInput) \<ge> real (length target) * (6 / 10)
          then TargetContainsInput
          else
            let inputWords = words_of normalizedInput;
                targetWords = words_of target
            in
              if length inputWords > 0 \<and> length targetWords > 0
                 \<and> (let matchingWords = filter (wordMatches inputWords) targetWords;
                         matchRatio = real (length matchingWords) / real (length targetWords)
                     in matchRatio \<ge> 6 / 10)
              then WordBased
              else NoMatchFound)"

fun returned :: "match_path \<Rightarrow> bool" where
  "returned NoTargetOrEmpty = False"
| "returned InputContainsTarget = True"
| "returned TargetContainsInput = True"
| "returned WordBased = True"
| "returned NoMatchFound = False"

definition checkMatch :: "string \<Rightarrow> string \<Rightarrow> bool" where
  "checkMatch normalizedTarget statement = returned (checkMatchPath normalizedTarget statement)"

subsection \<open>The three checks as the specification words them\<close>

definition spec_containment :: "string \<Rightarrow> string \<Rightarrow> bool" where
  \<comment> \<open>the normalized utterance contains the normalized target as a substring\<close>
  "spec_containment utterance target = sublist target utterance"

definition spec_reverse_partial :: "string \<Rightarrow> string \<Rightarrow> bool" where
  \<comment> \<open>the normalized target contains the normalized utterance as a substring and the
      utterance's length is at least 0.6 times the target's\<close>
  "spec_reverse_partial utterance target =
     (sublist utterance target \<and> real (length utterance) \<ge> 0.6 * real (length target))"

definition spec_word_overlap :: "string \<Rightarrow> string \<Rightarrow> bool" where
  \<comment> \<open>the fraction of target words for which some utterance word contains it, or it contains
      some utterance word, is at least 0.6\<close>
  "spec_word_overlap utterance target =
     (let uWords = words_of utterance; tWords = words_of target
      in real (length (filter (\<lambda>t. \<exists>u \<in> set uWords. sublist t u \<or> sublist u t) tWords))
           / real (length tWords) \<ge> 0.6)"

section \<open>The result handler of the voice input\<close>

record SpeechResult =
  transcript :: string
  isFinal :: bool

record ResultEvent =
  resultIndex :: nat
  results :: "SpeechResult list"

text \<open>
  A \<^typ>\<open>SpeechResult\<close> is one entry of \<^verbatim>\<open>event.results\<close>: the transcript of its first
  alternative (\<^verbatim>\<open>result[0].transcript\<close>) and its \<^verbatim>\<open>isFinal\<close> flag. The calls the
  handler makes to its parent are collected in order.
\<close>

datatype callback =
  StatementSpoken string bool  \<comment> \<open>\<^verbatim>\<open>onStatementSpoken(transcriptText, isMatch)\<close>\<close>
| MatchCall  \<comment> \<open>\<^verbatim>\<open>onMatch()\<close>\<close>

record VoiceInput =
  isMounted :: bool  \<comment> \<open>\<^verbatim>\<open>isMountedRef.current\<close>\<close>
  normalizedTarget :: string  \<comment> \<open>\<^verbatim>\<open>normalizedTargetRef.current\<close>\<close>
  processedStatements :: "string set"  \<comment> \<open>\<^verbatim>\<open>processedStatementsRef.current\<close>\<close>
  lastProcessedTime :: int  \<comment> \<open>\<^verbatim>\<open>lastProcessedTimeRef.current\<close>\<close>
  transcriptShown :: string  \<comment> \<open>the state \<^verbatim>\<open>transcript\<close>\<close>
  matchSuccess :: bool

record loop_vars =
  interimTranscript :: string
  latestFinalStatement :: string
  component :: VoiceInput
  calls :: "callback list"

fun digits :: "nat \<Rightarrow> string" where
  "digits n =
     (if n < 10 then [char_of (48 + n)] else digits (n div 10) @ [char_of (48 + n mod 10)])"

declare digits.simps [simp del]

definition numberToString :: "int \<Rightarrow> string" where
  \<comment> \<open>An integer in a template literal: its decimal digits, after a minus sign when negative
      (the form numbers below \<open>10\<^sup>2\<^sup>1\<close> have, as every clock value divided by 2000 is).\<close>
  "numberToString k = (if k < 0 then CHR ''-'' # digits (nat (- k)) else digits (nat k))"

definition targetPhraseEffect :: "string \<Rightarrow> VoiceInput \<Rightarrow> VoiceInput" where
  \<comment> \<open>The effect on \<^verbatim>\<open>targetPhrase\<close>: the target is normalized once, the dedup record cleared.\<close>
  "targetPhraseEffect targetPhrase v =
     v\<lparr>normalizedTarget := normalize_str targetPhrase,
       processedStatements := {},
       lastProcessedTime := 0\<rparr>"

definition timeWindowOf :: "int \<Rightarrow> int" where
  \<comment> \<open>\<^verbatim>\<open>Math.floor(currentTime / 2000)\<close>\<close>
  "timeWindowOf currentTime = currentTime div 2000"

definition statementKeyOf :: "string \<Rightarrow> int \<Rightarrow> string" where
  \<comment> \<open>The template \<^verbatim>\<open>`${normalizedText}_${timeWindow}`\<close>\<close>
  "statementKeyOf normalizedText timeWindow = normalizedText @ ''_'' @ numberToString timeWindow"

definition processResult :: "bool \<Rightarrow> int \<Rightarrow> SpeechResult \<Rightarrow> loop_vars \<Rightarrow> loop_vars" where
  \<comment> \<open>The body of the loop over \<^verbatim>\<open>event.results\<close>; the first argument says whether the parent
      passed \<^verbatim>\<open>onStatementSpoken\<close>.\<close>
  "processResult hasOnStatementSpoken currentTime result l =
     (let transcriptText = trim (transcript result) in
      if isFinal result then
        let l1 = l\<lparr>latestFinalStatement := transcriptText\<rparr> in
        if transcriptText \<noteq> [] then
          let normalizedText = normalize_str transcriptText;
              timeWindow = timeWindowOf currentTime;
              statementKey = statementKeyOf normalizedText timeWindow;
              v = component l1
          in
            if statementKey \<notin> processedStatements v then
              let v1 = v\<lparr>processedStatements := insert statementKey (processedStatements v),
                         lastProcessedTime := currentTime\<rparr>;
                  isMatch = checkMatch (normalizedTarget v1) transcriptText;
                  spoken = (if hasOnStatementSpoken then [StatementSpoken transcriptText isMatch]
                            else []);
                  l2 = l1\<lparr>component := v1, calls := calls l1 @ spoken\<rparr>
              in
                if isMatch then
                  l2\<lparr>component := (component l2)\<lparr>matchSuccess := True\<rparr>,
                     calls := calls l2 @ [MatchCall]\<rparr>
                else l2
            else l1
        else l1
      else l\<lparr>interimTranscript := interimTranscript l @ transcriptText\<rparr>)"

definition handleResult ::
  "bool \<Rightarrow> int \<Rightarrow> ResultEvent \<Rightarrow> VoiceInput \<Rightarrow> VoiceInput \<times> callback list" where
  \<comment> \<open>\<^verbatim>\<open>handleResult(event)\<close> with \<^verbatim>\<open>Date.now()\<close> read as the second argument: the component
      afterwards and the calls made to the parent.\<close>
  "handleResult hasOnStatementSpoken currentTime event v =
     (if \<not> isMounted v then (v, [])
      else
        let l = fold (processResult hasOnStatementSpoken currentTime)
                  (drop (resultIndex event) (results event))
                  \<lparr>interimTranscript = [], latestFinalStatement = [], component = v, calls = []\<rparr>;
            displayText = (if latestFinalStatement l \<noteq> [] then latestFinalStatement l
                           else interimTranscript l);
            v' = component l
        in ((if displayText \<noteq> [] then v'\<lparr>transcriptShown := displayText\<rparr> else v'), calls l))"

definition finalEvent :: "string \<Rightarrow> ResultEvent" where
  \<comment> \<open>An event that delivers one final fragment.\<close>
  "finalEvent text = \<lparr>resultIndex = 0, results = [\<lparr>transcript = text, isFinal = True\<rparr>]\<rparr>"

fun spokenCount :: "callback list \<Rightarrow> nat" where
  "spokenCount [] = 0"
| "spokenCount (StatementSpoken t m # cs) = Suc (spokenCount cs)"
| "spokenCount (MatchCall # cs) = spokenCount cs"

fun matchCount :: "callback list \<Rightarrow> nat" where
  "matchCount [] = 0"
| "matchCount (StatementSpoken t m # cs) = matchCount cs"
| "matchCount (MatchCall # cs) = Suc (matchCount cs)"

section \<open>The phrase service\<close>

datatype json =
  JNull | JBool bool | JNumber int | JString string | JArray "json list"
| JObject "(string \<times> json) list"

datatype fetch_outcome =
  NetworkError  \<comment> \<open>\<^verbatim>\<open>fetch\<close> rejects\<close>
| Response bool string "json option"
    \<comment> \<open>\<^verbatim>\<open>response.ok\<close>, \<^verbatim>\<open>response.statusText\<close>, and what \<^verbatim>\<open>response.json()\<close> resolves to
        (\<^term>\<open>None\<close>: the body is not JSON and it rejects)\<close>

definition fallback :: json where
  "fallback = JObject [(''text'', JString ''Six slippery snails slid slowly seaward.''),
                       (''difficulty'', JString ''Medium''),
                       (''theme'', JString ''Nature'')]"

definition tryBlock :: "fetch_outcome \<Rightarrow> string + json" where
  \<comment> \<open>The \<^verbatim>\<open>try\<close> block of \<^verbatim>\<open>generateTwister\<close>: \<^term>\<open>Inl\<close> is what it throws.\<close>
  "tryBlock outcome =
     (case outcome of
        NetworkError \<Rightarrow> Inl ''TypeError: Failed to fetch''
      | Response ok statusText body \<Rightarrow>
          if \<not> ok then Inl (''API error: '' @ statusText)
          else (case body of
                  None \<Rightarrow> Inl ''SyntaxError''
                | Some twister \<Rightarrow> Inr twister))"

definition generateTwister :: "fetch_outcome \<Rightarrow> string + json" where
  \<comment> \<open>The promise \<^verbatim>\<open>generateTwister(difficulty)\<close> returns, given what the request met:
      \<^term>\<open>Inl\<close> a rejection, \<^term>\<open>Inr\<close> the value it resolves to.\<close>
  "generateTwister outcome =
     (case tryBlock outcome of
        Inl error \<Rightarrow> Inr fallback
      | Inr twister \<Rightarrow> Inr twister)"

text \<open>
  The route handler that answers the request has two forms in the repository. The one
  that calls the model through \<^verbatim>\<open>fetch\<close> validates what the model returned before it sends
  it on (\<^verbatim>\<open>!twister.text || !twister.difficulty || !twister.theme\<close> throws, and the handler
  sends its fallback); the one that calls it through the SDK sends on whatever parses.
  \<^term>\<open>routeAccepts\<close> is the test of the first. The members of an object are those of a
  parsed one, each name once.
\<close>

fun truthy :: "json \<Rightarrow> bool" where
  "truthy JNull = False"
| "truthy (JBool b) = b"
| "truthy (JNumber n) = (n \<noteq> 0)"
| "truthy (JString s) = (s \<noteq> [])"
| "truthy (JArray xs) = True"
| "truthy (JObject members) = True"

fun property :: "json \<Rightarrow> string \<Rightarrow> json option" where
  \<comment> \<open>Reading a property; \<^term>\<open>None\<close> is \<^verbatim>\<open>undefined\<close> (on \<^verbatim>\<open>null\<close> the read throws, which
      the handler meets with its fallback as well).\<close>
  "property (JObject members) name = map_of members name"
| "property other name = None"

definition isTruthy :: "json option \<Rightarrow> bool" where
  "isTruthy v = (case v of None \<Rightarrow> False | Some j \<Rightarrow> truthy j)"

definition routeAccepts :: "json \<Rightarrow> bool" where
  \<comment> \<open>The handler does not throw: none of the three properties is falsy.\<close>
  "routeAccepts twister =
     (isTruthy (property twister ''text'')
      \<and> isTruthy (property twister ''difficulty'')
      \<and> isTruthy (property twister ''theme''))"

fun isStringField :: "(string \<times> json) list \<Rightarrow> string \<Rightarrow> bool" where
  "isStringField members name =
     (case map_of members name of Some (JString s) \<Rightarrow> True | _ \<Rightarrow> False)"

fun hasRequiredFields :: "json \<Rightarrow> bool" where
  \<comment> \<open>The fields of the interface \<^verbatim>\<open>TwisterChallenge\<close>: text, difficulty and theme.\<close>
  "hasRequiredFields (JObject members) =
     (isStringField members ''text'' \<and> isStringField members ''difficulty''
      \<and> isStringField members ''theme'')"
| "hasRequiredFields other = False"

section \<open>The round state machine\<close>

datatype Status = Idle | Loading | Playing | Success | Failed

record GameState =
  status :: Status
  score :: int
  timeLeft :: int
  currentTwister :: "json option"

definition TARGET_SCORE :: int where
  "TARGET_SCORE = 5"

definition GAME_DURATION :: int where
  "GAME_DURATION = 60"

text \<open>
  The component holds the state \<^verbatim>\<open>gameState\<close>, the flag \<^verbatim>\<open>confettiFiredRef.current\<close> and the
  interval of the timer effect, whose callback closes over the clock value and the time left
  that the effect read when it started: \<^verbatim>\<open>startTime\<close> and \<^verbatim>\<open>startValue\<close>. State updates are
  functions of the previous state that React queues and applies in order at the next render,
  so two states are kept apart: \<^term>\<open>rendered\<close>, what the last render showed and its
  effects read, and \<^term>\<open>gameState\<close>, the result of the updates queued since.
\<close>

record GameInterface =
  rendered :: GameState
  gameState :: GameState
  confettiFired :: bool
  timer :: "(int \<times> int) option"

definition initialGame :: GameInterface where
  "initialGame =
     \<lparr>rendered = \<lparr>status = Idle, score = 0, timeLeft = GAME_DURATION, currentTwister = None\<rparr>,
      gameState = \<lparr>status = Idle, score = 0, timeLeft = GAME_DURATION, currentTwister = None\<rparr>,
      confettiFired = False,
      timer = None\<rparr>"

subsection \<open>The state updates of the handlers\<close>

definition startGame :: "GameState \<Rightarrow> GameState" where
  "startGame prev = prev\<lparr>status := Playing, score := 0, timeLeft := GAME_DURATION\<rparr>"

definition handleMatch :: "GameState \<Rightarrow> GameState" where
  "handleMatch prev = (let newScore = score prev + 1 in prev\<lparr>score := newScore\<rparr>)"

definition retrySame :: "GameState \<Rightarrow> GameState" where
  "retrySame prev = prev\<lparr>status := Idle, score := 0, timeLeft := GAME_DURATION\<rparr>"

definition fetchNewTwister :: "json \<Rightarrow> GameState \<Rightarrow> GameState" where
  \<comment> \<open>The update \<^verbatim>\<open>fetchNewTwister\<close> makes once \<^verbatim>\<open>generateTwister\<close> has resolved to the twister.\<close>
  "fetchNewTwister twister prev =
     prev\<lparr>currentTwister := Some twister, score := 0, timeLeft := GAME_DURATION, status := Idle\<rparr>"

definition timerTick :: "int \<Rightarrow> int \<Rightarrow> int \<Rightarrow> GameState \<Rightarrow> GameState" where
  \<comment> \<open>The interval's callback, with \<^verbatim>\<open>Date.now()\<close> read as \<^verbatim>\<open>now\<close>.\<close>
  "timerTick startTime startValue now prev =
     (let elapsed = (now - startTime) div 1000;
          newTimeLeft = max 0 (startValue - elapsed)
      in
        if status prev \<noteq> Playing then prev
        else if newTimeLeft = 0 then prev\<lparr>status := Failed, timeLeft := 0\<rparr>
        else if timeLeft prev \<noteq> newTimeLeft then prev\<lparr>timeLeft := newTimeLeft\<rparr>
        else prev)"

subsection \<open>Rendering and the effects\<close>

text \<open>
  After a render the effects whose dependencies changed since the render before run in the
  order they are declared: the timer effect (on \<^verbatim>\<open>status\<close>), the win condition (on \<^verbatim>\<open>score\<close>
  and \<^verbatim>\<open>status\<close>) and the reset of the confetti flag (on \<^verbatim>\<open>status\<close>). They read the state of
  the render they belong to. The update the win condition queues is the first of the next
  queue; it is applied here at once, and shown by the next render.
\<close>

definition runEffects :: "GameState \<Rightarrow> int \<Rightarrow> GameInterface \<Rightarrow> GameInterface" where
  "runEffects shown now g =
     (let cur = gameState g;
          statusChanged = (status cur \<noteq> status shown);
          scoreChanged = (score cur \<noteq> score shown);
          g1 = (if statusChanged
                then g\<lparr>timer := (if status cur = Playing then Some (now, timeLeft cur) else None)\<rparr>
                else g);
          g2 = (if (scoreChanged \<or> statusChanged) \<and> score cur \<ge> TARGET_SCORE
                   \<and> status cur = Playing \<and> \<not> confettiFired g1
                then g1\<lparr>confettiFired := True, gameState := cur\<lparr>status := Success\<rparr>\<rparr>
                else g1);
          g3 = (if statusChanged \<and> status cur \<noteq> Success then g2\<lparr>confettiFired := False\<rparr>
                else g2)
      in g3)"

definition render :: "int \<Rightarrow> GameInterface \<Rightarrow> GameInterface" where
  \<comment> \<open>A render of the queued state, with its effects; \<^verbatim>\<open>Date.now()\<close> in them reads \<^term>\<open>now\<close>.\<close>
  "render now g = (runEffects (rendered g) now g)\<lparr>rendered := gameState g\<rparr>"

subsection \<open>Events\<close>

text \<open>
  An event queues the update of its handler; \<^term>\<open>Rendered\<close> is a render. Any number of
  updates can be queued between two renders: one result event of the recognizer can call
  \<^verbatim>\<open>onMatch\<close> several times, and a tick can come before the state that a match changed is
  rendered. What the last render showed decides who can send an event. The voice input
  whose \<^verbatim>\<open>onMatch\<close> is \<^verbatim>\<open>handleMatch\<close> is mounted only when that render had the status playing, and
  the retry button only when it had neither idle nor playing; the update of
  \<^verbatim>\<open>handleMatch\<close> itself tests nothing. The interval ticks as long as the timer effect has not
  cleared it. \<^verbatim>\<open>startGame\<close> and \<^verbatim>\<open>fetchNewTwister\<close> update the state after an \<^verbatim>\<open>await\<close>, so
  their updates can arrive at any time.
\<close>

datatype event =
  GameStarted | MatchHeard | TimerFired | RetryClicked | TwisterFetched json | Rendered

definition step :: "int \<Rightarrow> event \<Rightarrow> GameInterface \<Rightarrow> GameInterface" where
  "step now e g =
     (case e of
        GameStarted \<Rightarrow> g\<lparr>gameState := startGame (gameState g)\<rparr>
      | MatchHeard \<Rightarrow>
          if status (rendered g) = Playing then g\<lparr>gameState := handleMatch (gameState g)\<rparr>
          else g
      | TimerFired \<Rightarrow>
          (case timer g of
             None \<Rightarrow> g
           | Some (startTime, startValue) \<Rightarrow>
               g\<lparr>gameState := timerTick startTime startValue now (gameState g)\<rparr>)
      | RetryClicked \<Rightarrow>
          if status (rendered g) \<noteq> Idle \<and> status (rendered g) \<noteq> Playing
          then g\<lparr>gameState := retrySame (gameState g)\<rparr>
          else g
      | TwisterFetched twister \<Rightarrow> g\<lparr>gameState := fetchNewTwister twister (gameState g)\<rparr>
      | Rendered \<Rightarrow> render now g)"

fun exec :: "(int \<times> event) list \<Rightarrow> GameInterface \<Rightarrow> GameInterface" where
  \<comment> \<open>A run: each event with the clock value read while it is handled.\<close>
  "exec [] g = g"
| "exec ((now, e) # es) g = exec es (step now e g)"

fun statuses :: "(int \<times> event) list \<Rightarrow> GameInterface \<Rightarrow> Status list" where
  \<comment> \<open>The status after each event of a run.\<close>
  "statuses [] g = []"
| "statuses ((now, e) # es) g = status (gameState (step now e g)) # statuses es (step now e g)"

fun successEntries :: "Status \<Rightarrow> Status list \<Rightarrow> nat" where
  \<comment> \<open>How often a sequence of statuses, after the given one, enters \<^term>\<open>Success\<close>.\<close>
  "successEntries prior [] = 0"
| "successEntries prior (s # ss) =
     (if prior \<noteq> Success \<and> s = Success then 1 else 0) + successEntries s ss"


definition matchOrRender :: "int \<times> event \<Rightarrow> bool" where
  "matchOrRender te = (snd te = MatchHeard \<or> snd te = Rendered)"

definition tickOrRender :: "int \<times> event \<Rightarrow> bool" where
  "tickOrRender te = (snd te = TimerFired \<or> snd te = Rendered)"


subsection \<open>Invariants\<close>

definition bounded :: "int \<Rightarrow> GameInterface \<Rightarrow> bool" where
  \<comment> \<open>The time left is at most the round's duration, and so is the value a running timer
      started from; the timer started no later than the clock value \<^term>\<open>lo\<close>.\<close>
  "bounded lo g \<longleftrightarrow>
     timeLeft (gameState g) \<le> GAME_DURATION
     \<and> (case timer g of
          None \<Rightarrow> True
        | Some (startTime, startValue) \<Rightarrow> startValue \<le> GAME_DURATION \<and> startTime \<le> lo)"

definition ticking :: "int \<Rightarrow> GameInterface \<Rightarrow> bool" where
  \<comment> \<open>A round whose timer started at \<^term>\<open>t0\<close> and in which nothing matched: still
      playing, or failed.\<close>
  "ticking t0 g \<longleftrightarrow>
     (status (gameState g) = Playing \<and> status (rendered g) = Playing
      \<and> timer g = Some (t0, GAME_DURATION) \<and> score (gameState g) = 0)
     \<or> (status (gameState g) = Failed \<and> timeLeft (gameState g) = 0
        \<and> score (gameState g) = 0)"



section \<open>The normalizer is idempotent\<close>

lemma last_dropWhile_nonempty: "dropWhile P xs \<noteq> [] \<Longrightarrow> last (dropWhile P xs) = last xs"
  by (induction xs) (auto split: if_splits)

lemma trim_ends:
  "trim s = [] \<or> (\<not> isWhiteSpace (hd (trim s)) \<and> \<not> isWhiteSpace (last (trim s)))"
proof (cases "trim s = []")
  case True
  then show ?thesis by simp
next
  case False
  define a where "a = dropWhile isWhiteSpace s"
  define b where "b = dropWhile isWhiteSpace (rev a)"
  have t: "trim s = rev b"
    by (simp add: trim_def a_def b_def)
  with False have bne: "b \<noteq> []" by simp
  then have ane: "a \<noteq> []" by (auto simp: b_def)
  have "\<not> isWhiteSpace (hd b)"
    using bne unfolding b_def by (rule hd_dropWhile)
  then have l: "\<not> isWhiteSpace (last (trim s))"
    using bne by (simp add: t last_rev)
  have "last b = last (rev a)"
    using bne unfolding b_def by (rule last_dropWhile_nonempty)
  also have "\<dots> = hd a"
    using ane by (simp add: last_rev)
  finally have "hd (trim s) = hd a"
    using bne by (simp add: t hd_rev)
  moreover have "\<not> isWhiteSpace (hd a)"
    using ane unfolding a_def by (rule hd_dropWhile)
  ultimately show ?thesis using l by simp
qed

lemma trim_fixed:
  assumes "t = [] \<or> (\<not> isWhiteSpace (hd t) \<and> \<not> isWhiteSpace (last t))"
  shows "trim t = t"
proof (cases "t = []")
  case True
  then show ?thesis by (simp add: trim_def)
next
  case False
  with assms have h: "\<not> isWhiteSpace (hd t)" and l: "\<not> isWhiteSpace (last t)"
    by simp_all
  have 1: "dropWhile isWhiteSpace t = t"
    using h by (simp add: dropWhile_eq_self_iff)
  have "hd (rev t) = last t"
    using False by (simp add: hd_rev)
  then have 2: "dropWhile isWhiteSpace (rev t) = rev t"
    using l by (simp add: dropWhile_eq_self_iff)
  show ?thesis
    by (simp add: trim_def 1 2)
qed

lemma trim_idem: "trim (trim s) = trim s"
  by (rule trim_fixed) (rule trim_ends)

lemma set_trim: "set (trim s) \<subseteq> set s"
proof -
  have "set (trim s) = set (dropWhile isWhiteSpace (rev (dropWhile isWhiteSpace s)))"
    by (simp add: trim_def)
  also have "\<dots> \<subseteq> set (rev (dropWhile isWhiteSpace s))"
    by (rule set_dropWhileD [THEN subsetI])
  also have "\<dots> \<subseteq> set s"
    using set_dropWhileD [of _ isWhiteSpace s] by auto
  finally show ?thesis .
qed

lemma isKept_normalize: "c \<in> set (normalize_str x) \<Longrightarrow> isKept c"
  using set_trim [of "filter isKept (toLowerCase x)"] by (auto simp: normalize_str_def)

lemma isKept_lower: "isKept c \<Longrightarrow> toLowerCaseUnit c = c"
  by (auto simp: isKept_def toLowerCaseUnit_def Let_def)

lemma kept_fixed:
  assumes "\<And>c. c \<in> set s \<Longrightarrow> isKept c"
  shows "filter isKept (toLowerCase s) = s"
proof -
  have "toLowerCase s = s"
    unfolding toLowerCase_def using assms by (simp add: isKept_lower map_idI)
  then show ?thesis
    using assms by simp
qed

text \<open>
  C8. The normalizer is idempotent: normalizing a normalized string changes nothing.
  The second conjunct records why: a normalized string holds only lower-case letters,
  digits and spaces.
\<close>

theorem normalize_idempotent:
  "normalize_str (normalize_str x) = normalize_str x \<and> list_all isKept (normalize_str x)"
proof -
  have k: "filter isKept (toLowerCase (normalize_str x)) = normalize_str x"
    by (rule kept_fixed) (rule isKept_normalize)
  have "normalize_str (normalize_str x) = trim (normalize_str x)"
    by (simp add: normalize_str_def [of "normalize_str x"] k)
  also have "\<dots> = normalize_str x"
    by (simp add: normalize_str_def trim_idem)
  finally show ?thesis
    using isKept_normalize [of _ x] by (simp add: list_all_iff)
qed

theorem normalize_idempotent_witness:
  "normalize_str (normalize_str ''  Six slippery Snails, slid!  '') = ''six slippery snails slid''
   \<and> list_all isKept ''six slippery snails slid''"
proof -
  have e: "normalize_str ''  Six slippery Snails, slid!  '' = ''six slippery snails slid''"
    by code_simp
  show ?thesis
    using normalize_idempotent [of "''  Six slippery Snails, slid!  ''"] by (simp only: e)
qed

section \<open>The matcher takes the first of three checks\<close>

lemma includes_str_sublist: "includes_str hay needle = sublist needle hay"
  by (induction hay) (simp_all add: sublist_Cons_right)

lemma split_from_nonempty: "cur \<noteq> [] \<Longrightarrow> \<exists>w \<in> set (split_from cur False s). w \<noteq> []"
  by (induction s arbitrary: cur) auto

lemma words_of_nonempty:
  assumes "s \<noteq> []" "\<not> isWhiteSpace (hd s)"
  shows "words_of s \<noteq> []"
proof -
  obtain c cs where s: "s = c # cs" using assms(1) by (cases s) auto
  with assms(2) have "split_ws s = split_from [c] False cs"
    by (simp add: split_ws_def)
  moreover have "\<exists>w \<in> set (split_from [c] False cs). w \<noteq> []"
    by (rule split_from_nonempty) simp
  ultimately show ?thesis
    by (auto simp: words_of_def filter_empty_conv)
qed

lemma words_of_normalized: "normalize_str p \<noteq> [] \<Longrightarrow> words_of (normalize_str p) \<noteq> []"
  using trim_ends [of "filter isKept (toLowerCase p)"]
  by (intro words_of_nonempty) (auto simp: normalize_str_def)

lemma wordMatches_spec: "wordMatches ws t = (\<exists>u \<in> set ws. sublist t u \<or> sublist u t)"
  by (simp add: wordMatches_def list_ex_iff includes_str_sublist)

lemma trim_Nil_iff: "trim s = [] \<longleftrightarrow> (\<forall>c \<in> set s. isWhiteSpace c)"
proof
  assume "trim s = []"
  then have "\<forall>c \<in> set (dropWhile isWhiteSpace s). isWhiteSpace c"
    by (simp add: trim_def dropWhile_eq_Nil_conv)
  then have "dropWhile isWhiteSpace s = []"
    using hd_dropWhile [of isWhiteSpace s] hd_in_set [of "dropWhile isWhiteSpace s"] by blast
  then show "\<forall>c \<in> set s. isWhiteSpace c"
    by (simp add: dropWhile_eq_Nil_conv)
next
  assume "\<forall>c \<in> set s. isWhiteSpace c"
  then show "trim s = []"
    using set_dropWhileD [of _ isWhiteSpace s] by (auto simp: trim_def)
qed

lemma lower_ws: "isWhiteSpace c \<Longrightarrow> toLowerCaseUnit c = c"
  by (auto simp: isWhiteSpace_def toLowerCaseUnit_def Let_def)

lemma blank_normalize: "trim s = [] \<Longrightarrow> normalize_str s = []"
proof -
  assume "trim s = []"
  then have "\<forall>c \<in> set s. isWhiteSpace c"
    by (simp add: trim_Nil_iff)
  then have "\<forall>c \<in> set (filter isKept (toLowerCase s)). isWhiteSpace c"
    by (auto simp: toLowerCase_def lower_ws)
  then show ?thesis
    by (simp only: normalize_str_def trim_Nil_iff)
qed

text \<open>
  C1, as amended. The matcher first leaves with false when the normalized target is empty
  or the statement is blank. Otherwise it takes the first of three checks that succeeds, in
  this order: the normalized statement contains the normalized target; the normalized
  target contains the normalized statement, whose length is at least 0.6 times the
  target's; at least 0.6 of the target's words contain, or are contained in, some word of
  the statement. It returns true exactly when one of them succeeds. A normalized target
  that is not empty has a word, so the fraction is defined.
\<close>

theorem checkMatch_three_checks:
  "checkMatchPath (normalize_str targetPhrase) statement =
     (if normalize_str targetPhrase = [] \<or> trim statement = [] then NoTargetOrEmpty
      else if spec_containment (normalize_str statement) (normalize_str targetPhrase)
        then InputContainsTarget
      else if spec_reverse_partial (normalize_str statement) (normalize_str targetPhrase)
        then TargetContainsInput
      else if spec_word_overlap (normalize_str statement) (normalize_str targetPhrase)
        then WordBased
      else NoMatchFound)
   \<and> checkMatch (normalize_str targetPhrase) statement =
     (normalize_str targetPhrase \<noteq> [] \<and> trim statement \<noteq> []
      \<and> (spec_containment (normalize_str statement) (normalize_str targetPhrase)
         \<or> spec_reverse_partial (normalize_str statement) (normalize_str targetPhrase)
         \<or> spec_word_overlap (normalize_str statement) (normalize_str targetPhrase)))
   \<and> (normalize_str targetPhrase \<noteq> [] \<longrightarrow> words_of (normalize_str targetPhrase) \<noteq> [])"
proof -
  define T where "T = normalize_str targetPhrase"
  define U where "U = normalize_str statement"
  have w: "T \<noteq> [] \<Longrightarrow> words_of T \<noteq> []"
    unfolding T_def by (rule words_of_normalized)
  have overlap: "spec_word_overlap U T =
      (length (words_of U) > 0 \<and> length (words_of T) > 0
       \<and> real (length (filter (wordMatches (words_of U)) (words_of T)))
           / real (length (words_of T)) \<ge> 6 / 10)"
  proof (cases "words_of U = [] \<or> words_of T = []")
    case True
    then show ?thesis
      by (auto simp: spec_word_overlap_def Let_def)
  next
    case False
    then show ?thesis
      by (simp add: spec_word_overlap_def Let_def wordMatches_spec [abs_def])
  qed
  have path: "checkMatchPath T statement =
     (if T = [] \<or> trim statement = [] then NoTargetOrEmpty
      else if spec_containment U T then InputContainsTarget
      else if spec_reverse_partial U T then TargetContainsInput
      else if spec_word_overlap U T then WordBased
      else NoMatchFound)"
    by (simp add: checkMatchPath_def Let_def U_def [symmetric] overlap
        spec_containment_def spec_reverse_partial_def includes_str_sublist)
  have "checkMatch T statement =
     (T \<noteq> [] \<and> trim statement \<noteq> []
      \<and> (spec_containment U T \<or> spec_reverse_partial U T \<or> spec_word_overlap U T))"
    by (simp add: checkMatch_def path)
  with path w show ?thesis
    by (simp add: T_def U_def)
qed

theorem checkMatch_three_checks_witness:
  "checkMatchPath (normalize_str ''Red lorry, yellow lorry'')
     ''a red lorry and a yellow lorry driving'' = WordBased
   \<and> checkMatch (normalize_str ''Red lorry, yellow lorry'')
       ''a red lorry and a yellow lorry driving''
   \<and> words_of (normalize_str ''Red lorry, yellow lorry'') \<noteq> []"
proof -
  have t: "normalize_str ''Red lorry, yellow lorry'' = ''red lorry yellow lorry''"
    by code_simp
  have u: "normalize_str ''a red lorry and a yellow lorry driving''
           = ''a red lorry and a yellow lorry driving''"
    by code_simp
  have b: "trim ''a red lorry and a yellow lorry driving'' \<noteq> []"
    by code_simp
  have c1: "\<not> spec_containment ''a red lorry and a yellow lorry driving''
              ''red lorry yellow lorry''"
    by code_simp
  have c2: "\<not> spec_reverse_partial ''a red lorry and a yellow lorry driving''
              ''red lorry yellow lorry''"
    by code_simp
  have c3: "spec_word_overlap ''a red lorry and a yellow lorry driving''
              ''red lorry yellow lorry''"
    by code_simp
  show ?thesis
    using checkMatch_three_checks
      [of "''Red lorry, yellow lorry''" "''a red lorry and a yellow lorry driving''"]
    by (simp add: t u b c1 c2 c3)
qed

text \<open>
  The claim C1 as it stands fails where the target normalizes to the empty string: the
  first check succeeds, every string containing the empty one, and the matcher answers no.
\<close>

theorem checkMatch_empty_target_counterexample:
  "spec_containment (normalize_str ''hello'') (normalize_str ''?!'')
   \<and> \<not> checkMatch (normalize_str ''?!'') ''hello''"
  by code_simp

text \<open>
  C2, as amended. A statement whose normal form equals that of the target phrase matches,
  through the first check, provided that normal form is not the empty string. When the
  target's normal form is the empty string no statement matches, and so none whose normal
  form is empty as well.
\<close>

theorem exact_match:
  "(normalize_str U = normalize_str T \<and> normalize_str T \<noteq> [] \<longrightarrow>
      checkMatch (normalize_str T) U
      \<and> checkMatchPath (normalize_str T) U = InputContainsTarget)
   \<and> (normalize_str T = [] \<longrightarrow> \<not> checkMatch (normalize_str T) U)"
proof -
  have 1: "checkMatch (normalize_str T) U
           \<and> checkMatchPath (normalize_str T) U = InputContainsTarget"
    if e: "normalize_str U = normalize_str T" and n: "normalize_str T \<noteq> []"
  proof -
    have "trim U \<noteq> []"
      using e n blank_normalize [of U] by auto
    then show ?thesis
      using e n by (simp add: checkMatch_def checkMatchPath_def Let_def includes_str_sublist)
  qed
  have 2: "\<not> checkMatch (normalize_str T) U" if "normalize_str T = []"
    using that by (simp add: checkMatch_def checkMatchPath_def)
  show ?thesis
    using 1 2 by blast
qed

theorem exact_match_witness:
  "checkMatch (normalize_str ''Six slippery snails slid slowly seaward.'')
     ''six slippery snails, slid slowly SEAWARD''
   \<and> checkMatchPath (normalize_str ''Six slippery snails slid slowly seaward.'')
       ''six slippery snails, slid slowly SEAWARD'' = InputContainsTarget
   \<and> normalize_str ''!?'' = []
   \<and> \<not> checkMatch (normalize_str ''!?'') ''six slippery snails''"
proof -
  have e: "normalize_str ''six slippery snails, slid slowly SEAWARD''
           = normalize_str ''Six slippery snails slid slowly seaward.''"
    by code_simp
  have n: "normalize_str ''Six slippery snails slid slowly seaward.'' \<noteq> []"
    by code_simp
  have z: "normalize_str ''!?'' = []"
    by code_simp
  show ?thesis
    using exact_match [of "''six slippery snails, slid slowly SEAWARD''"
        "''Six slippery snails slid slowly seaward.''"]
      exact_match [of "''six slippery snails''" "''!?''"] e n z
    by blast
qed

text \<open>
  The claim C2 as it stands, with no restriction, fails where both normal forms are empty.
\<close>

theorem exact_match_empty_counterexample:
  "normalize_str ''?!'' = normalize_str ''...''
   \<and> \<not> checkMatch (normalize_str ''...'') ''?!''"
  by code_simp

section \<open>Trimming before normalizing changes nothing\<close>

lemma trim_ws_left:
  assumes "\<forall>c \<in> set a. isWhiteSpace c"
  shows "trim (a @ y) = trim y"
  using assms by (simp add: trim_def dropWhile_append2)

lemma trim_ws_right:
  assumes "\<forall>c \<in> set b. isWhiteSpace c"
  shows "trim (y @ b) = trim y"
proof (cases "\<forall>c \<in> set y. isWhiteSpace c")
  case True
  then have "trim (y @ b) = []" "trim y = []"
    using assms by (auto simp: trim_Nil_iff)
  then show ?thesis by simp
next
  case False
  then obtain c where "c \<in> set y" "\<not> isWhiteSpace c"
    by blast
  then have 1: "dropWhile isWhiteSpace (y @ b) = dropWhile isWhiteSpace y @ b"
    by (rule dropWhile_append1)
  have 2: "dropWhile isWhiteSpace (rev b @ z) = dropWhile isWhiteSpace z" for z
    using assms by (intro dropWhile_append2) simp
  show ?thesis
    by (simp add: trim_def 1 2)
qed

lemma trim_decompose:
  "\<exists>l r. s = l @ trim s @ r \<and> (\<forall>c \<in> set l. isWhiteSpace c) \<and> (\<forall>c \<in> set r. isWhiteSpace c)"
proof -
  define a where "a = dropWhile isWhiteSpace s"
  have 1: "s = takeWhile isWhiteSpace s @ a"
    by (simp add: a_def)
  have "rev (takeWhile isWhiteSpace (rev a) @ dropWhile isWhiteSpace (rev a))
        = rev (dropWhile isWhiteSpace (rev a)) @ rev (takeWhile isWhiteSpace (rev a))"
    by (rule rev_append)
  then have "rev (rev a)
        = rev (dropWhile isWhiteSpace (rev a)) @ rev (takeWhile isWhiteSpace (rev a))"
    by (simp only: takeWhile_dropWhile_id)
  then have 2: "a = trim s @ rev (takeWhile isWhiteSpace (rev a))"
    by (simp only: rev_rev_ident trim_def a_def)
  have "s = takeWhile isWhiteSpace s @ trim s @ rev (takeWhile isWhiteSpace (rev a))"
    using 1 2 by simp
  moreover have "\<forall>c \<in> set (takeWhile isWhiteSpace s). isWhiteSpace c"
    using set_takeWhileD by fastforce
  moreover have "\<forall>c \<in> set (rev (takeWhile isWhiteSpace (rev a))). isWhiteSpace c"
    using set_takeWhileD by fastforce
  ultimately show ?thesis
    by blast
qed

lemma kept_ws:
  assumes "\<forall>c \<in> set s. isWhiteSpace c"
  shows "\<forall>c \<in> set (filter isKept (toLowerCase s)). isWhiteSpace c"
  using assms by (auto simp: toLowerCase_def lower_ws)

lemma normalize_trim: "normalize_str (trim s) = normalize_str s"
proof -
  obtain l r where s: "s = l @ trim s @ r"
    and l: "\<forall>c \<in> set l. isWhiteSpace c" and r: "\<forall>c \<in> set r. isWhiteSpace c"
    using trim_decompose [of s] by blast
  let ?F = "\<lambda>x. filter isKept (toLowerCase x)"
  have "normalize_str s = trim (?F (l @ trim s @ r))"
    using s by (simp add: normalize_str_def)
  also have "\<dots> = trim (?F l @ ?F (trim s) @ ?F r)"
    by (simp add: toLowerCase_def)
  also have "\<dots> = trim (?F (trim s) @ ?F r)"
    using kept_ws [OF l] by (rule trim_ws_left)
  also have "\<dots> = trim (?F (trim s))"
    using kept_ws [OF r] by (rule trim_ws_right)
  finally show ?thesis
    by (simp add: normalize_str_def)
qed

section \<open>The dedup key\<close>

lemma digits_small: "n < 10 \<Longrightarrow> digits n = [char_of (48 + n)]"
  by (subst digits.simps) simp

lemma digits_large:
  "\<not> n < 10 \<Longrightarrow> digits n = digits (n div 10) @ [char_of (48 + n mod 10)]"
  by (subst digits.simps) simp

lemma digits_nonempty: "digits n \<noteq> []"
  by (cases "n < 10") (simp_all add: digits_small digits_large)

lemma digit_inj: "a < 10 \<Longrightarrow> b < 10 \<Longrightarrow> char_of (48 + a :: nat) = char_of (48 + b) \<Longrightarrow> a = b"
  by (simp add: char_of_eq_iff take_bit_eq_mod)

lemma digits_inj: "digits n = digits m \<Longrightarrow> n = m"
proof (induction n arbitrary: m rule: digits.induct)
  case (1 n)
  show ?case
  proof (cases "n < 10")
    case n: True
    show ?thesis
    proof (cases "m < 10")
      case m: True
      have "[char_of (48 + n)] = [char_of (48 + m) :: char]"
        using "1.prems" by (simp only: digits_small [OF n] digits_small [OF m])
      then have "char_of (48 + n) = (char_of (48 + m) :: char)"
        by (simp only: list.inject)
      then show ?thesis
        using n m by (rule digit_inj [rotated 2])
    next
      case m: False
      have "[char_of (48 + n)] = digits (m div 10) @ [char_of (48 + m mod 10) :: char]"
        using "1.prems" by (simp only: digits_small [OF n] digits_large [OF m])
      then have "length [char_of (48 + n) :: char]
                 = length (digits (m div 10) @ [char_of (48 + m mod 10) :: char])"
        by (rule arg_cong)
      then have "length (digits (m div 10)) = 0"
        by simp
      then show ?thesis
        using digits_nonempty [of "m div 10"] by simp
    qed
  next
    case n: False
    show ?thesis
    proof (cases "m < 10")
      case m: True
      have "digits (n div 10) @ [char_of (48 + n mod 10) :: char] = [char_of (48 + m)]"
        using "1.prems" by (simp only: digits_large [OF n] digits_small [OF m])
      then have "length (digits (n div 10) @ [char_of (48 + n mod 10) :: char])
                 = length [char_of (48 + m) :: char]"
        by (rule arg_cong)
      then have "length (digits (n div 10)) = 0"
        by simp
      then show ?thesis
        using digits_nonempty [of "n div 10"] by simp
    next
      case m: False
      have "digits (n div 10) @ [char_of (48 + n mod 10) :: char]
            = digits (m div 10) @ [char_of (48 + m mod 10)]"
        using "1.prems" by (simp only: digits_large [OF n] digits_large [OF m])
      then have d: "digits (n div 10) = digits (m div 10)"
        and c: "char_of (48 + n mod 10) = (char_of (48 + m mod 10) :: char)"
        by (simp_all only: append1_eq_conv)
      have 1: "n div 10 = m div 10"
        using n d by (rule "1.IH")
      have 2: "n mod 10 = m mod 10"
        by (rule digit_inj [OF _ _ c]) simp_all
      have "n = n div 10 * 10 + n mod 10"
        by simp
      also have "\<dots> = m div 10 * 10 + m mod 10"
        by (simp only: 1 2)
      also have "\<dots> = m"
        by simp
      finally show ?thesis .
    qed
  qed
qed

lemma digit_no_minus: "k < 10 \<Longrightarrow> char_of (48 + k :: nat) \<noteq> CHR ''-''"
proof
  assume k: "k < 10" and "char_of (48 + k) = CHR ''-''"
  then have "(of_char (char_of (48 + k)) :: nat) = of_char CHR ''-''"
    by simp
  then show False
    using k by simp
qed

lemma hd_digits: "hd (digits n) \<noteq> CHR ''-''"
proof (induction n rule: digits.induct)
  case (1 n)
  show ?case
  proof (cases "n < 10")
    case True
    then show ?thesis
      by (simp add: digits_small digit_no_minus)
  next
    case False
    have "hd (digits n) = hd (digits (n div 10))"
      using digits_nonempty [of "n div 10"] by (simp add: digits_large [OF False])
    then show ?thesis
      using "1.IH" [OF False] by simp
  qed
qed

lemma numberToString_inj:
  assumes "numberToString a = numberToString b"
  shows "a = b"
proof -
  have m: "numberToString k = CHR ''-'' # digits (nat (- k))" if "k < 0" for k
    using that by (simp add: numberToString_def)
  have p: "numberToString k = digits (nat k)" if "\<not> k < 0" for k
    using that by (simp add: numberToString_def)
  have x: "CHR ''-'' # ds \<noteq> digits n" for ds n
  proof
    assume "CHR ''-'' # ds = digits n"
    then have "hd (digits n) = CHR ''-''"
      by (simp only: list.sel(1) flip: \<open>CHR ''-'' # ds = digits n\<close>)
    then show False
      using hd_digits [of n] by simp
  qed
  show ?thesis
  proof (cases "a < 0")
    case a: True
    show ?thesis
    proof (cases "b < 0")
      case b: True
      have "digits (nat (- a)) = digits (nat (- b))"
        using assms by (simp only: m [OF a] m [OF b] list.inject)
      then have "nat (- a) = nat (- b)"
        by (rule digits_inj)
      then show ?thesis
        using a b by simp
    next
      case b: False
      have "CHR ''-'' # digits (nat (- a)) = digits (nat b)"
        using assms by (simp only: m [OF a] p [OF b])
      then show ?thesis
        using x by simp
    qed
  next
    case a: False
    show ?thesis
    proof (cases "b < 0")
      case b: True
      have "CHR ''-'' # digits (nat (- b)) = digits (nat a)"
        using assms by (simp only: p [OF a] m [OF b])
      then show ?thesis
        using x by simp
    next
      case b: False
      have "digits (nat a) = digits (nat b)"
        using assms by (simp only: p [OF a] p [OF b])
      then have "nat a = nat b"
        by (rule digits_inj)
      then show ?thesis
        using a b by simp
    qed
  qed
qed

lemma statementKeyOf_window:
  "statementKeyOf n w = statementKeyOf n w' \<longleftrightarrow> w = w'"
  using numberToString_inj [of w w'] by (auto simp: statementKeyOf_def)

section \<open>The result handler on one final fragment\<close>

lemma handleResult_final:
  assumes "isMounted v"
  shows "handleResult h t (finalEvent text) v =
    (if trim text = [] then (v, [])
     else if statementKeyOf (normalize_str text) (timeWindowOf t) \<in> processedStatements v
       then (v\<lparr>transcriptShown := trim text\<rparr>, [])
     else if checkMatch (normalizedTarget v) (trim text)
       then (v\<lparr>processedStatements :=
                  insert (statementKeyOf (normalize_str text) (timeWindowOf t))
                    (processedStatements v),
                lastProcessedTime := t, matchSuccess := True, transcriptShown := trim text\<rparr>,
             (if h then [StatementSpoken (trim text) True] else []) @ [MatchCall])
     else (v\<lparr>processedStatements :=
                insert (statementKeyOf (normalize_str text) (timeWindowOf t))
                  (processedStatements v),
              lastProcessedTime := t, transcriptShown := trim text\<rparr>,
           (if h then [StatementSpoken (trim text) False] else [])))"
  using assms
  by (simp add: handleResult_def finalEvent_def processResult_def Let_def normalize_trim)

text \<open>
  C9. A final fragment whose transcript trims to the empty string leaves the loop with
  nothing but the latest final statement set to the empty string: the component, with its
  dedup record, is as before and no call is added. An event that delivers only such a
  fragment leaves the component as it was and calls nothing.
\<close>

theorem blank_final_dropped:
  assumes "isFinal result" and "trim (transcript result) = []"
  shows "processResult h t result l = l\<lparr>latestFinalStatement := []\<rparr>
       \<and> calls (processResult h t result l) = calls l
       \<and> processedStatements (component (processResult h t result l))
           = processedStatements (component l)
       \<and> handleResult h t \<lparr>resultIndex = 0, results = [result]\<rparr> v = (v, [])"
  using assms by (simp add: processResult_def handleResult_def Let_def)

theorem blank_final_dropped_witness:
  "processResult True 4000 \<lparr>transcript = ''   '', isFinal = True\<rparr>
      \<lparr>interimTranscript = ''six'', latestFinalStatement = ''slippery'',
       component = \<lparr>isMounted = True, normalizedTarget = ''six slippery snails'',
         processedStatements = {''slippery_1''}, lastProcessedTime = 3000,
         transcriptShown = ''slippery'', matchSuccess = False\<rparr>,
       calls = [StatementSpoken ''slippery'' False]\<rparr>
    = \<lparr>interimTranscript = ''six'', latestFinalStatement = [],
       component = \<lparr>isMounted = True, normalizedTarget = ''six slippery snails'',
         processedStatements = {''slippery_1''}, lastProcessedTime = 3000,
         transcriptShown = ''slippery'', matchSuccess = False\<rparr>,
       calls = [StatementSpoken ''slippery'' False]\<rparr>
   \<and> handleResult True 4000
       \<lparr>resultIndex = 0, results = [\<lparr>transcript = ''   '', isFinal = True\<rparr>]\<rparr>
       \<lparr>isMounted = True, normalizedTarget = ''six slippery snails'',
         processedStatements = {''slippery_1''}, lastProcessedTime = 3000,
         transcriptShown = ''slippery'', matchSuccess = False\<rparr>
     = (\<lparr>isMounted = True, normalizedTarget = ''six slippery snails'',
         processedStatements = {''slippery_1''}, lastProcessedTime = 3000,
         transcriptShown = ''slippery'', matchSuccess = False\<rparr>, [])"
proof -
  have f: "isFinal \<lparr>transcript = ''   '', isFinal = True\<rparr>"
    by simp
  have b: "trim (transcript \<lparr>transcript = ''   '', isFinal = True\<rparr>) = []"
    by code_simp
  show ?thesis
    using blank_final_dropped [OF f b, of True 4000
        "\<lparr>interimTranscript = ''six'', latestFinalStatement = ''slippery'',
          component = \<lparr>isMounted = True, normalizedTarget = ''six slippery snails'',
            processedStatements = {''slippery_1''}, lastProcessedTime = 3000,
            transcriptShown = ''slippery'', matchSuccess = False\<rparr>,
          calls = [StatementSpoken ''slippery'' False]\<rparr>"
        "\<lparr>isMounted = True, normalizedTarget = ''six slippery snails'',
          processedStatements = {''slippery_1''}, lastProcessedTime = 3000,
          transcriptShown = ''slippery'', matchSuccess = False\<rparr>"]
    by simp
qed

text \<open>
  C3, as amended. A mounted component whose parent listens to the statements receives a
  final fragment that is not blank and whose key is not yet in the dedup record: it is
  processed, with one statement event and at most one match call. A second final fragment
  with the same normalized text in the same 2-second bucket is not processed: no call, and
  the record is unchanged. A third one with the same normalized text, not blank, in a later
  bucket whose key is not in the record either is processed again, with a second statement
  event.
\<close>

theorem dedup_bucket:
  fixes v :: VoiceInput and t1 t2 t3 :: int and text1 text2 text3 :: string
  defines "r1 \<equiv> handleResult True t1 (finalEvent text1) v"
  defines "r2 \<equiv> handleResult True t2 (finalEvent text2) (fst r1)"
  defines "r3 \<equiv> handleResult True t3 (finalEvent text3) (fst r2)"
  assumes mounted: "isMounted v"
    and text1: "trim text1 \<noteq> []"
    and fresh1: "statementKeyOf (normalize_str text1) (timeWindowOf t1) \<notin> processedStatements v"
    and text2: "normalize_str text2 = normalize_str text1"
    and bucket2: "timeWindowOf t2 = timeWindowOf t1"
    and text3: "trim text3 \<noteq> []" "normalize_str text3 = normalize_str text1"
    and bucket3: "timeWindowOf t1 < timeWindowOf t3"
    and fresh3: "statementKeyOf (normalize_str text1) (timeWindowOf t3) \<notin> processedStatements v"
  shows "spokenCount (snd r1) = 1
       \<and> snd r2 = []
       \<and> processedStatements (fst r2) = processedStatements (fst r1)
       \<and> spokenCount (snd r1 @ snd r2) = 1
       \<and> matchCount (snd r1 @ snd r2) \<le> 1
       \<and> spokenCount (snd r3) = 1
       \<and> spokenCount (snd r1 @ snd r2 @ snd r3) = 2"
proof -
  let ?k1 = "statementKeyOf (normalize_str text1) (timeWindowOf t1)"
  let ?k3 = "statementKeyOf (normalize_str text1) (timeWindowOf t3)"
  have m1: "isMounted (fst r1)"
    and p1: "processedStatements (fst r1) = insert ?k1 (processedStatements v)"
    and s1: "spokenCount (snd r1) = 1" and c1: "matchCount (snd r1) \<le> 1"
    unfolding r1_def using mounted text1 fresh1 by (simp_all add: handleResult_final [OF mounted])
  have k2: "statementKeyOf (normalize_str text2) (timeWindowOf t2) \<in> processedStatements (fst r1)"
    using p1 text2 bucket2 by simp
  have m2: "isMounted (fst r2)"
    and p2: "processedStatements (fst r2) = processedStatements (fst r1)"
    and s2: "snd r2 = []"
    unfolding r2_def using m1 k2 by (simp_all add: handleResult_final [OF m1])
  have "?k3 \<noteq> ?k1"
    using bucket3 by (simp add: statementKeyOf_window)
  then have k3: "statementKeyOf (normalize_str text3) (timeWindowOf t3) \<notin> processedStatements (fst r2)"
    using p1 p2 fresh3 text3(2) by simp
  have s3: "spokenCount (snd r3) = 1"
    unfolding r3_def using k3 text3(1) by (simp add: handleResult_final [OF m2])
  have app: "spokenCount (a @ b) = spokenCount a + spokenCount b"
    "matchCount (a @ b) = matchCount a + matchCount b" for a b
    by (induction a rule: spokenCount.induct) simp_all
  show ?thesis
    using s1 c1 s2 p2 s3 by (simp add: app)
qed

theorem dedup_bucket_witness:
  "spokenCount (snd (handleResult True 4100 (finalEvent ''Red lorry, yellow lorry'')
      (targetPhraseEffect ''Red lorry, yellow lorry.''
        \<lparr>isMounted = True, normalizedTarget = [], processedStatements = {},
         lastProcessedTime = 0, transcriptShown = [], matchSuccess = False\<rparr>))) = 1
   \<and> snd (handleResult True 5900 (finalEvent '' red lorry yellow lorry! '')
      (fst (handleResult True 4100 (finalEvent ''Red lorry, yellow lorry'')
        (targetPhraseEffect ''Red lorry, yellow lorry.''
          \<lparr>isMounted = True, normalizedTarget = [], processedStatements = {},
           lastProcessedTime = 0, transcriptShown = [], matchSuccess = False\<rparr>)))) = []
   \<and> spokenCount (snd (handleResult True 6000 (finalEvent ''Red lorry, yellow lorry'')
      (fst (handleResult True 5900 (finalEvent '' red lorry yellow lorry! '')
        (fst (handleResult True 4100 (finalEvent ''Red lorry, yellow lorry'')
          (targetPhraseEffect ''Red lorry, yellow lorry.''
            \<lparr>isMounted = True, normalizedTarget = [], processedStatements = {},
             lastProcessedTime = 0, transcriptShown = [], matchSuccess = False\<rparr>))))))) = 1"
proof -
  let ?v = "targetPhraseEffect ''Red lorry, yellow lorry.''
        \<lparr>isMounted = True, normalizedTarget = [], processedStatements = {},
         lastProcessedTime = 0, transcriptShown = [], matchSuccess = False\<rparr>"
  have mounted: "isMounted ?v"
    by (simp add: targetPhraseEffect_def)
  have text1: "trim ''Red lorry, yellow lorry'' \<noteq> []"
    by code_simp
  have fresh: "statementKeyOf (normalize_str ''Red lorry, yellow lorry'') w
        \<notin> processedStatements ?v" for w
    by (simp add: targetPhraseEffect_def)
  have text2: "normalize_str '' red lorry yellow lorry! '' = normalize_str ''Red lorry, yellow lorry''"
    by code_simp
  have bucket2: "timeWindowOf 5900 = timeWindowOf 4100"
    by (simp add: timeWindowOf_def)
  have bucket3: "timeWindowOf 4100 < timeWindowOf 6000"
    by (simp add: timeWindowOf_def)
  show ?thesis
    using dedup_bucket [OF mounted text1 fresh text2 bucket2 text1 refl bucket3 fresh]
    by simp
qed

text \<open>
  The claim C3 as it stands, for every final text, fails on a blank one: delivered twice in
  one bucket and once more in a later one, it produces no statement event at all.
\<close>

theorem dedup_blank_counterexample:
  "spokenCount
     (snd (handleResult True 4100 (finalEvent ''  '')
        (targetPhraseEffect ''Red lorry, yellow lorry.''
          \<lparr>isMounted = True, normalizedTarget = [], processedStatements = {},
           lastProcessedTime = 0, transcriptShown = [], matchSuccess = False\<rparr>))
      @ snd (handleResult True 4200 (finalEvent ''  '')
        (fst (handleResult True 4100 (finalEvent ''  '')
          (targetPhraseEffect ''Red lorry, yellow lorry.''
            \<lparr>isMounted = True, normalizedTarget = [], processedStatements = {},
             lastProcessedTime = 0, transcriptShown = [], matchSuccess = False\<rparr>))))
      @ snd (handleResult True 6000 (finalEvent ''  '')
        (fst (handleResult True 4200 (finalEvent ''  '')
          (fst (handleResult True 4100 (finalEvent ''  '')
            (targetPhraseEffect ''Red lorry, yellow lorry.''
              \<lparr>isMounted = True, normalizedTarget = [], processedStatements = {},
               lastProcessedTime = 0, transcriptShown = [], matchSuccess = False\<rparr>))))))) = 0"
  by code_simp

section \<open>The phrase service\<close>

lemma tryBlock_cases:
  "tryBlock NetworkError = Inl ''TypeError: Failed to fetch''"
  "tryBlock (Response False statusText body) = Inl (''API error: '' @ statusText)"
  "tryBlock (Response True statusText None) = Inl ''SyntaxError''"
  "tryBlock (Response True statusText (Some twister)) = Inr twister"
  by (simp_all add: tryBlock_def)

text \<open>
  \<^verbatim>\<open>generateTwister\<close> never rejects, and it resolves to the fallback when the request fails,
  when the response is not ok and when its body is not JSON.
\<close>

lemma generateTwister_resolves:
  "(\<exists>twister. generateTwister outcome = Inr twister)
   \<and> generateTwister NetworkError = Inr fallback
   \<and> generateTwister (Response False statusText body) = Inr fallback
   \<and> generateTwister (Response True statusText None) = Inr fallback"
proof -
  have "\<exists>twister. generateTwister outcome = Inr twister"
    by (cases "tryBlock outcome") (simp_all add: generateTwister_def)
  then show ?thesis
    by (simp add: generateTwister_def tryBlock_cases)
qed

lemma generateTwister_passes_on:
  "generateTwister (Response True statusText (Some parsed)) = Inr parsed"
  by (simp add: generateTwister_def tryBlock_cases)

text \<open>
  C7 fails on the code. An ok response whose body is JSON without the fields difficulty
  and theme is a malformed response: the validating route handler would not send it. The
  route handler that does not validate can, and \<^verbatim>\<open>generateTwister\<close>, which tests nothing
  either, resolves to that body and not to the fallback.
\<close>

theorem generateTwister_malformed:
  "\<not> hasRequiredFields (JObject [(''text'', JString ''Six snails'')])
   \<and> \<not> routeAccepts (JObject [(''text'', JString ''Six snails'')])
   \<and> generateTwister (Response True ''OK'' (Some (JObject [(''text'', JString ''Six snails'')])))
       = Inr (JObject [(''text'', JString ''Six snails'')])
   \<and> JObject [(''text'', JString ''Six snails'')] \<noteq> fallback
   \<and> routeAccepts fallback"
  by (simp add: generateTwister_def tryBlock_def fallback_def routeAccepts_def isTruthy_def)

section \<open>The round state machine, event by event\<close>

lemma render_gameState:
  "gameState (render now g) =
     (if score (gameState g) \<ge> TARGET_SCORE \<and> status (gameState g) = Playing
         \<and> (score (gameState g) \<noteq> score (rendered g)
            \<or> status (gameState g) \<noteq> status (rendered g))
         \<and> \<not> confettiFired g
      then (gameState g)\<lparr>status := Success\<rparr> else gameState g)"
  by (simp add: render_def runEffects_def Let_def)

lemma render_rendered: "rendered (render now g) = gameState g"
  by (simp add: render_def)

lemma render_timer:
  "timer (render now g) =
     (if status (gameState g) \<noteq> status (rendered g)
      then (if status (gameState g) = Playing then Some (now, timeLeft (gameState g)) else None)
      else timer g)"
  by (simp add: render_def runEffects_def Let_def)

lemma render_confettiFired:
  "confettiFired (render now g) =
     (if status (gameState g) \<noteq> status (rendered g) \<and> status (gameState g) \<noteq> Success
      then False
      else if score (gameState g) \<ge> TARGET_SCORE \<and> status (gameState g) = Playing
              \<and> score (gameState g) \<noteq> score (rendered g) \<and> \<not> confettiFired g
      then True
      else confettiFired g)"
  by (simp add: render_def runEffects_def Let_def)

lemmas render_simps = render_gameState render_rendered render_timer render_confettiFired

lemma step_simps:
  "step now GameStarted g = g\<lparr>gameState := startGame (gameState g)\<rparr>"
  "step now MatchHeard g =
     (if status (rendered g) = Playing then g\<lparr>gameState := handleMatch (gameState g)\<rparr> else g)"
  "step now TimerFired g =
     (case timer g of
        None \<Rightarrow> g
      | Some (startTime, startValue) \<Rightarrow>
          g\<lparr>gameState := timerTick startTime startValue now (gameState g)\<rparr>)"
  "step now RetryClicked g =
     (if status (rendered g) \<noteq> Idle \<and> status (rendered g) \<noteq> Playing
      then g\<lparr>gameState := retrySame (gameState g)\<rparr> else g)"
  "step now (TwisterFetched tw) g = g\<lparr>gameState := fetchNewTwister tw (gameState g)\<rparr>"
  "step now Rendered g = render now g"
  by (simp_all add: step_def)

lemma timerTick_cases:
  "timerTick startTime startValue now prev =
     (if status prev \<noteq> Playing then prev
      else if max 0 (startValue - (now - startTime) div 1000) = 0
        then prev\<lparr>status := Failed, timeLeft := 0\<rparr>
      else prev\<lparr>timeLeft := max 0 (startValue - (now - startTime) div 1000)\<rparr>)"
proof -
  define nt where "nt = max 0 (startValue - (now - startTime) div 1000)"
  have "timerTick startTime startValue now prev =
     (if status prev \<noteq> Playing then prev
      else if nt = 0 then prev\<lparr>status := Failed, timeLeft := 0\<rparr>
      else prev\<lparr>timeLeft := nt\<rparr>)"
    unfolding timerTick_def Let_def nt_def [symmetric] by simp
  then show ?thesis
    by (simp only: nt_def)
qed

lemma timerTick_fields:
  "score (timerTick startTime startValue now prev) = score prev"
  "status prev \<noteq> Playing \<Longrightarrow> timerTick startTime startValue now prev = prev"
  "status prev = Playing \<Longrightarrow>
     timeLeft (timerTick startTime startValue now prev)
       = max 0 (startValue - (now - startTime) div 1000)"
  "status prev = Playing \<Longrightarrow>
     status (timerTick startTime startValue now prev)
       = (if max 0 (startValue - (now - startTime) div 1000) = 0 then Failed else Playing)"
  by (simp_all add: timerTick_cases)

section \<open>Invariants of the round state machine\<close>

lemma step_nonneg:
  assumes "0 \<le> timeLeft (gameState g)" and "0 \<le> score (gameState g)"
  shows "0 \<le> timeLeft (gameState (step now e g)) \<and> 0 \<le> score (gameState (step now e g))"
proof (cases e)
  case TimerFired
  show ?thesis
  proof (cases "timer g")
    case None
    then show ?thesis
      using assms TimerFired by (simp add: step_simps)
  next
    case (Some a)
    obtain startTime startValue where "a = (startTime, startValue)"
      by (cases a)
    then show ?thesis
      using assms TimerFired Some
      by (cases "status (gameState g) = Playing") (simp_all add: step_simps timerTick_fields)
  qed
qed (use assms in \<open>simp_all add: step_simps render_simps startGame_def handleMatch_def
      retrySame_def fetchNewTwister_def GAME_DURATION_def Let_def\<close>)

lemma exec_nonneg:
  "0 \<le> timeLeft (gameState g) \<Longrightarrow> 0 \<le> score (gameState g) \<Longrightarrow>
   0 \<le> timeLeft (gameState (exec es g)) \<and> 0 \<le> score (gameState (exec es g))"
  by (induction es g rule: exec.induct) (simp_all add: step_nonneg)

lemma initial_nonneg:
  "0 \<le> timeLeft (gameState (exec es initialGame)) \<and> 0 \<le> score (gameState (exec es initialGame))"
  by (rule exec_nonneg) (simp_all add: initialGame_def GAME_DURATION_def)

lemma step_bounded:
  assumes "bounded lo g" and "lo \<le> now"
  shows "bounded now (step now e g)"
proof (cases e)
  case TimerFired
  show ?thesis
  proof (cases "timer g")
    case None
    then show ?thesis
      using assms TimerFired by (simp add: step_simps bounded_def)
  next
    case (Some a)
    obtain startTime startValue where a: "a = (startTime, startValue)"
      by (cases a)
    have b: "startValue \<le> GAME_DURATION" "startTime \<le> now" "timeLeft (gameState g) \<le> GAME_DURATION"
      using assms Some a by (auto simp: bounded_def)
    then have "0 \<le> (now - startTime) div 1000"
      by simp
    then have "max 0 (startValue - (now - startTime) div 1000) \<le> GAME_DURATION"
      using b(1) by (simp add: GAME_DURATION_def)
    then show ?thesis
      using TimerFired Some a b
      by (cases "status (gameState g) = Playing")
        (simp_all add: step_simps timerTick_fields bounded_def)
  qed
next
  case Rendered
  then show ?thesis
    using assms by (auto simp: step_simps render_simps bounded_def split: option.splits)
qed (use assms in \<open>auto simp: step_simps startGame_def handleMatch_def retrySame_def
      fetchNewTwister_def bounded_def Let_def split: option.splits\<close>)

lemma exec_bounded:
  "bounded lo g \<Longrightarrow> sorted (map fst es) \<Longrightarrow> \<forall>t \<in> set (map fst es). lo \<le> t \<Longrightarrow>
   timeLeft (gameState (exec es g)) \<le> GAME_DURATION"
proof (induction es arbitrary: g lo)
  case Nil
  then show ?case by (simp add: bounded_def)
next
  case (Cons a es)
  obtain now e where a: "a = (now, e)" by (cases a)
  have "bounded now (step now e g)"
    using Cons.prems a by (intro step_bounded) auto
  moreover have "sorted (map fst es)" "\<forall>t \<in> set (map fst es). now \<le> t"
    using Cons.prems a by auto
  ultimately show ?case
    using Cons.IH [of now "step now e g"] a by simp
qed

section \<open>Bounds on the time left\<close>

text \<open>
  C10, as amended. In every reachable state the time left is not negative; it is at most
  the round's duration of 60 seconds when the clock values read along the run never
  decrease.
\<close>

theorem timeLeft_bounds:
  "0 \<le> timeLeft (gameState (exec es initialGame))
   \<and> (sorted (map fst es) \<longrightarrow> timeLeft (gameState (exec es initialGame)) \<le> 60)"
proof -
  have "timeLeft (gameState (exec es initialGame)) \<le> GAME_DURATION" if "sorted (map fst es)"
  proof (cases es)
    case Nil
    then show ?thesis by (simp add: initialGame_def)
  next
    case (Cons a list)
    have b: "bounded (fst a) initialGame"
      by (simp add: bounded_def initialGame_def)
    have l: "\<forall>t \<in> set (map fst es). fst a \<le> t"
      using that Cons by auto
    show ?thesis
      using b that l by (rule exec_bounded)
  qed
  then show ?thesis
    using initial_nonneg [of es] by (simp add: GAME_DURATION_def)
qed

theorem timeLeft_bounds_witness:
  "timeLeft (gameState
      (exec [(10000, GameStarted), (10000, Rendered), (12500, TimerFired)] initialGame)) = 58
   \<and> 0 \<le> timeLeft (gameState
      (exec [(10000, GameStarted), (10000, Rendered), (12500, TimerFired)] initialGame))
   \<and> sorted (map fst [(10000 :: int, GameStarted), (10000, Rendered), (12500, TimerFired)])
   \<and> timeLeft (gameState
      (exec [(10000, GameStarted), (10000, Rendered), (12500, TimerFired)] initialGame)) \<le> 60"
proof -
  have s: "sorted (map fst [(10000 :: int, GameStarted), (10000, Rendered), (12500, TimerFired)])"
    by simp
  have v: "timeLeft (gameState
      (exec [(10000, GameStarted), (10000, Rendered), (12500, TimerFired)] initialGame)) = 58"
    by code_simp
  show ?thesis
    using timeLeft_bounds [of "[(10000, GameStarted), (10000, Rendered), (12500, TimerFired)]"] s v
    by (simp del: exec.simps)
qed

text \<open>
  The claim C10 as it stands fails when a tick reads a clock value earlier than the one its
  timer started from: the elapsed time is negative, and only the lower bound is clamped.
\<close>

theorem timeLeft_clock_back_counterexample:
  "timeLeft (gameState
      (exec [(10000, GameStarted), (10000, Rendered), (8000, TimerFired)] initialGame)) = 62
   \<and> \<not> timeLeft (gameState
      (exec [(10000, GameStarted), (10000, Rendered), (8000, TimerFired)] initialGame)) \<le> 60"
  by code_simp

section \<open>A round that runs out of time\<close>

lemma start_ticking:
  assumes "status (gameState g) = Idle" and "status (rendered g) = Idle"
  shows "ticking t0 (exec [(t, GameStarted), (t0, Rendered)] g)"
  using assms
  by (simp add: ticking_def step_simps render_simps startGame_def TARGET_SCORE_def)

lemma step_ticking:
  assumes "ticking t0 g" and "tickOrRender (now, e)"
  shows "ticking t0 (step now e g)"
proof (cases "e = Rendered")
  case True
  then show ?thesis
    using assms(1) by (auto simp: ticking_def step_simps render_simps TARGET_SCORE_def)
next
  case False
  then have e: "e = TimerFired"
    using assms(2) by (simp add: tickOrRender_def)
  show ?thesis
  proof (cases "status (gameState g) = Playing")
    case True
    then have "timer g = Some (t0, GAME_DURATION)" "score (gameState g) = 0"
      "status (rendered g) = Playing"
      using assms(1) by (auto simp: ticking_def)
    then show ?thesis
      using True e by (simp add: ticking_def step_simps timerTick_fields)
  next
    case False
    then show ?thesis
      using assms(1) e
      by (auto simp: ticking_def step_simps timerTick_fields split: option.splits)
  qed
qed

lemma exec_ticking: "ticking t0 g \<Longrightarrow> list_all tickOrRender es \<Longrightarrow> ticking t0 (exec es g)"
proof (induction es arbitrary: g)
  case Nil
  then show ?case by simp
next
  case (Cons a es)
  obtain now e where a: "a = (now, e)" by (cases a)
  have "ticking t0 (step now e g)"
    using Cons.prems a by (intro step_ticking) auto
  then show ?case
    using Cons.IH [of "step now e g"] Cons.prems(2) a by simp
qed

lemma tick_formula:
  assumes "ticking t0 g" and "status (gameState g) = Playing"
  shows "timeLeft (gameState (step now TimerFired g))
         = max 0 (GAME_DURATION - (now - t0) div 1000)"
proof -
  have "timer g = Some (t0, GAME_DURATION)"
    using assms by (auto simp: ticking_def)
  then show ?thesis
    using assms(2) by (simp add: step_simps timerTick_fields)
qed

lemma tick_expired:
  assumes "ticking t0 g" and "now - t0 \<ge> 60 * 1000"
  shows "status (gameState (step now TimerFired g)) = Failed
         \<and> timeLeft (gameState (step now TimerFired g)) = 0"
proof (cases "status (gameState g) = Playing")
  case True
  then have t: "timer g = Some (t0, GAME_DURATION)"
    using assms by (auto simp: ticking_def)
  have "(now - t0) div 1000 \<ge> 60"
    using assms(2) by linarith
  then have "max 0 (GAME_DURATION - (now - t0) div 1000) = 0"
    by (simp add: GAME_DURATION_def)
  then show ?thesis
    using True t by (simp add: step_simps timerTick_cases)
next
  case False
  then show ?thesis
    using assms
    by (auto simp: ticking_def step_simps timerTick_fields split: option.splits)
qed

lemma render_failed:
  assumes "status (gameState g) = Failed"
  shows "gameState (step now Rendered g) = gameState g"
  using assms by (simp add: step_simps render_simps)

text \<open>
  C6. A round is started from the idle state, its start is rendered at clock value \<open>t0\<close>,
  and it meets nothing but timer ticks and renders. While it is still playing, a tick at
  clock value \<open>now\<close> sets the time left to \<open>max 0 (60 - \<lfloor>(now - t0) / 1000\<rfloor>)\<close>, computed from
  the clock and not by counting the ticks; and a tick 60 seconds or more after the start
  leaves the status failed and the time left 0, which the next render keeps.
\<close>

theorem timeout_fails:
  assumes "status (gameState g) = Idle" and "status (rendered g) = Idle"
    and "list_all tickOrRender es"
  shows "(status (gameState (exec ((t, GameStarted) # (t0, Rendered) # es) g)) = Playing \<longrightarrow>
           timeLeft (gameState (step now TimerFired
               (exec ((t, GameStarted) # (t0, Rendered) # es) g)))
             = max 0 (60 - (now - t0) div 1000))
       \<and> (now - t0 \<ge> 60 * 1000 \<longrightarrow>
           status (gameState (step now TimerFired
               (exec ((t, GameStarted) # (t0, Rendered) # es) g))) = Failed
           \<and> timeLeft (gameState (step now TimerFired
               (exec ((t, GameStarted) # (t0, Rendered) # es) g))) = 0
           \<and> status (gameState (step later Rendered (step now TimerFired
               (exec ((t, GameStarted) # (t0, Rendered) # es) g)))) = Failed
           \<and> timeLeft (gameState (step later Rendered (step now TimerFired
               (exec ((t, GameStarted) # (t0, Rendered) # es) g)))) = 0)"
proof -
  define g1 where "g1 = exec ((t, GameStarted) # (t0, Rendered) # es) g"
  have "g1 = exec es (exec [(t, GameStarted), (t0, Rendered)] g)"
    by (simp add: g1_def)
  then have "ticking t0 g1"
    using exec_ticking [OF start_ticking [OF assms(1,2)] assms(3)] by simp
  then show ?thesis
    unfolding g1_def [symmetric]
    using tick_formula [of t0 g1 now] tick_expired [of t0 g1 now]
      render_failed [of "step now TimerFired g1" later]
    by (simp add: GAME_DURATION_def)
qed

theorem timeout_fails_witness:
  "status (gameState initialGame) = Idle
   \<and> status (gameState (exec ((4900, GameStarted) # (5000, Rendered) #
        [(5100, TimerFired), (5100, Rendered), (30000, TimerFired)]) initialGame)) = Playing
   \<and> timeLeft (gameState (step 47300 TimerFired
        (exec ((4900, GameStarted) # (5000, Rendered) #
           [(5100, TimerFired), (5100, Rendered), (30000, TimerFired)]) initialGame))) = 18
   \<and> status (gameState (step 65000 TimerFired
        (exec ((4900, GameStarted) # (5000, Rendered) #
           [(5100, TimerFired), (5100, Rendered), (30000, TimerFired)]) initialGame))) = Failed
   \<and> timeLeft (gameState (step 65000 TimerFired
        (exec ((4900, GameStarted) # (5000, Rendered) #
           [(5100, TimerFired), (5100, Rendered), (30000, TimerFired)]) initialGame))) = 0
   \<and> status (gameState (step 65010 Rendered (step 65000 TimerFired
        (exec ((4900, GameStarted) # (5000, Rendered) #
           [(5100, TimerFired), (5100, Rendered), (30000, TimerFired)]) initialGame)))) = Failed"
proof -
  have i: "status (gameState initialGame) = Idle" "status (rendered initialGame) = Idle"
    by (simp_all add: initialGame_def)
  have l: "list_all tickOrRender [(5100, TimerFired), (5100, Rendered), (30000, TimerFired)]"
    by (simp add: tickOrRender_def)
  have p: "status (gameState (exec ((4900, GameStarted) # (5000, Rendered) #
        [(5100, TimerFired), (5100, Rendered), (30000, TimerFired)]) initialGame)) = Playing"
    by code_simp
  show ?thesis
    using timeout_fails [OF i l, of 4900 5000 47300 65010]
      timeout_fails [OF i l, of 4900 5000 65000 65010] i(1) p
    by (simp del: exec.simps)
qed

section \<open>A round is won at most once\<close>


lemma statuses_append: "statuses (xs @ ys) g = statuses xs g @ statuses ys (exec xs g)"
  by (induction xs g rule: statuses.induct) simp_all

lemma last_statuses:
  "last (status (gameState g) # statuses xs g) = status (gameState (exec xs g))"
  by (induction xs g rule: statuses.induct) simp_all

lemma successEntries_append:
  "successEntries b (xs @ ys) = successEntries b xs + successEntries (last (b # xs)) ys"
  by (induction xs arbitrary: b) simp_all
















section \<open>The score after the round is over\<close>

lemma score_after_unmount:
  assumes "status (rendered g) \<noteq> Playing" and "0 \<le> score (gameState g)"
  shows "score (gameState (step now e g)) \<le> score (gameState g)"
  using assms
  by (cases e)
    (simp_all add: step_simps render_simps startGame_def retrySame_def fetchNewTwister_def
      timerTick_fields split: option.splits)

text \<open>
  C5 fails on the code. The update of \<^verbatim>\<open>handleMatch\<close> raises the score whatever the status
  is, where the update of the timer beside it first tests that the status is playing. A
  round is started and rendered, one match is heard, and the tick that ends the time is
  queued: the status is failed and the score 1. A match heard before the voice input is
  unmounted by the next render raises the score to 2.
\<close>

theorem late_match_raises_score:
  "status (gameState (exec [(0, GameStarted), (0, Rendered), (100, MatchHeard),
      (60000, TimerFired)] initialGame)) = Failed
   \<and> score (gameState (exec [(0, GameStarted), (0, Rendered), (100, MatchHeard),
      (60000, TimerFired)] initialGame)) = 1
   \<and> score (gameState (step 60050 MatchHeard (exec [(0, GameStarted), (0, Rendered),
      (100, MatchHeard), (60000, TimerFired)] initialGame))) = 2"
  by code_simp

end
